theory Spec2Isabelle
  imports Main "HOL-Library.AList" "HOL-Library.Multiset" "HOL-Library.Sublist"
begin

chapter \<open>The embedding\<close>

section \<open>JavaScript values\<close>

text \<open>
  The front end handles the values that \<^verbatim>\<open>response.json()\<close> delivers and that
  \<^verbatim>\<open>JSON.stringify\<close> serialises. An object is the list of its own properties in
  insertion order; \<^verbatim>\<open>undefined\<close> is not a JSON value and is \<open>None\<close> wherever a
  property read can produce it. Numbers are restricted to the integer-valued ones (no
  property below depends on a number).
\<close>

datatype jsval =
    JNull
  | JBool bool
  | JNum int
  | JStr string
  | JArr "jsval list"
  | JObj "(string \<times> jsval) list"

text \<open>An entry of the preview: a JSON object, given by its properties.\<close>

type_synonym entry = "(string \<times> jsval) list"

text \<open>\<^verbatim>\<open>entry[field]\<close> on an entry object: the own property, or \<^verbatim>\<open>undefined\<close>.\<close>

definition get_prop :: "entry \<Rightarrow> string \<Rightarrow> jsval option" where
  "get_prop entry field = map_of entry field"

text \<open>ToBoolean, as \<^verbatim>\<open>||\<close>, \<^verbatim>\<open>!\<close>, \<^verbatim>\<open>&&\<close> and \<^verbatim>\<open>if\<close> apply it.\<close>

fun truthy :: "jsval option \<Rightarrow> bool" where
  "truthy None = False"
| "truthy (Some JNull) = False"
| "truthy (Some (JBool b)) = b"
| "truthy (Some (JNum n)) = (n \<noteq> 0)"
| "truthy (Some (JStr s)) = (s \<noteq> [])"
| "truthy (Some (JArr xs)) = True"
| "truthy (Some (JObj fs)) = True"

text \<open>\<^verbatim>\<open>v || d\<close> where \<open>v\<close> is a string or \<^verbatim>\<open>null\<close>/\<^verbatim>\<open>undefined\<close>.\<close>

definition or_default :: "string option \<Rightarrow> string \<Rightarrow> string" where
  "or_default v d = (case v of Some s \<Rightarrow> if s \<noteq> [] then s else d | None \<Rightarrow> d)"

definition dquote :: char where
  "dquote = CHR 0x22"

section \<open>The API client: \<^verbatim>\<open>generateSchedule\<close>\<close>

text \<open>
  \<^verbatim>\<open>
  export async function generateSchedule(teamName, entries, outputDir = '', saveToSystem = false) {
    const response = await fetch(`${API_BASE_URL}/inspections/schedule/`, {
      method: 'POST',
      headers: { 'Content-Type': 'application/json' },
      body: JSON.stringify({
        team_name: teamName,
        entries_json: JSON.stringify(entries),
        output_dir: outputDir,
        save_to_system: saveToSystem,
      }),
    });
    if (!response.ok) {
      const error = await response.json().catch(() => ({ error: 'Failed to generate schedule' }));
      throw new Error(error.error || 'Failed to generate schedule');
    }
    const contentType = response.headers.get('Content-Type') || '';
    const filename = response.headers.get('Content-Disposition')
                       ?.match(/filename="(.+)"/)?.[1] || 'schedule.xlsx';
    const blob = await response.blob();
    return { blob, filename, contentType };
  }
  \<close>
  What the function throws is a value: \<open>Error m\<close> is \<^verbatim>\<open>new Error(m)\<close>, \<open>TypeError\<close> is
  the engine's error for a property read on \<^verbatim>\<open>null\<close>, \<open>Rejected\<close> is a rejected
  promise of the fetch API (\<^verbatim>\<open>fetch\<close> itself, or \<^verbatim>\<open>response.blob()\<close>).
\<close>

datatype js_error = Error string | TypeError | Rejected

record request =
  url :: string
  http_method :: string
  req_headers :: "(string \<times> string) list"
  body :: string

text \<open>
  A response as the function observes it: \<open>headers_get\<close> is
  \<^verbatim>\<open>response.headers.get\<close> (\<open>None\<close> for \<^verbatim>\<open>null\<close>), \<open>json\<close> is the outcome of
  \<^verbatim>\<open>response.json()\<close> (\<open>None\<close> when it rejects: the body is not parseable JSON),
  \<open>blob_of\<close> the outcome of \<^verbatim>\<open>response.blob()\<close>.
\<close>

record 'b response =
  ok :: bool
  headers_get :: "string \<Rightarrow> string option"
  json :: "jsval option"
  blob_of :: "'b option"

text \<open>
  What the function takes from its environment: the build-time variable, the built-ins
  \<^verbatim>\<open>JSON.stringify\<close> and ToString (for \<^verbatim>\<open>new Error(v)\<close> on a value that is
  not a string), and \<^verbatim>\<open>fetch\<close> (\<open>None\<close> when it rejects).
\<close>

record 'b js_env =
  VITE_API_URL :: "string option"
  JSON_stringify :: "jsval \<Rightarrow> string"
  ToString :: "jsval \<Rightarrow> string"
  fetch :: "request \<Rightarrow> 'b response option"

record 'b generated =
  blob :: 'b
  filename :: string
  contentType :: string

definition API_BASE_URL :: "'b js_env \<Rightarrow> string" where
  "API_BASE_URL env = or_default (VITE_API_URL env) ''http://localhost:8000/api''"

text \<open>
  The regular expression \<^verbatim>\<open>/filename="(.+)"/\<close>, matched by \<^verbatim>\<open>String.prototype.match\<close>:
  the leftmost position where the literal \<^verbatim>\<open>filename="\<close> stands and is followed by
  one or more characters other than line terminators and then a double quote; the group is
  greedy, so among the closing quotes of that line it takes the last. A header value is a
  byte string, in which the line terminators are LF and CR.
\<close>

definition line_terminator :: "char \<Rightarrow> bool" where
  "line_terminator c = (c = CHR 0x0A \<or> c = CHR 0x0D)"

definition filename_eq_quote :: string where
  "filename_eq_quote = ''filename='' @ [dquote]"

definition greedy_capture :: "string \<Rightarrow> string option" where
  "greedy_capture rest =
     (let line = takeWhile (\<lambda>c. \<not> line_terminator c) rest;
          closing = filter (\<lambda>n. line ! n = dquote) [1..<length line]
      in if closing = [] then None else Some (take (last closing) line))"

fun match_filename :: "string \<Rightarrow> string option" where
  "match_filename [] = None"
| "match_filename (c # cs) =
     (if prefix filename_eq_quote (c # cs)
      then (case greedy_capture (drop (length filename_eq_quote) (c # cs)) of
              Some name \<Rightarrow> Some name
            | None \<Rightarrow> match_filename cs)
      else match_filename cs)"

definition response_filename :: "'b response \<Rightarrow> string" where
  "response_filename response =
     or_default
       (case headers_get response ''Content-Disposition'' of
          None \<Rightarrow> None
        | Some h \<Rightarrow> match_filename h)
       ''schedule.xlsx''"

text \<open>
  \<^verbatim>\<open>error.error\<close> on the parsed body: a \<open>TypeError\<close> on \<^verbatim>\<open>null\<close>, the own property of
  an object, \<^verbatim>\<open>undefined\<close> on every other value (no prototype has a property of that
  name).
\<close>

fun read_error_property :: "jsval \<Rightarrow> js_error + jsval option" where
  "read_error_property JNull = Inl TypeError"
| "read_error_property (JObj fs) = Inr (map_of fs ''error'')"
| "read_error_property (JBool b) = Inr None"
| "read_error_property (JNum n) = Inr None"
| "read_error_property (JStr s) = Inr None"
| "read_error_property (JArr xs) = Inr None"

text \<open>The message of \<^verbatim>\<open>new Error(v)\<close>.\<close>

fun error_message :: "'b js_env \<Rightarrow> jsval \<Rightarrow> string" where
  "error_message env (JStr s) = s"
| "error_message env v = ToString env v"

text \<open>
  The request handed to \<^verbatim>\<open>fetch\<close>. An argument left out (\<open>None\<close>) takes the default of
  the parameter list.
\<close>

definition schedule_request ::
  "'b js_env \<Rightarrow> string \<Rightarrow> jsval list \<Rightarrow> string option \<Rightarrow> bool option \<Rightarrow> request" where
  "schedule_request env teamName entries outputDir saveToSystem =
     \<lparr>url = API_BASE_URL env @ ''/inspections/schedule/'',
      http_method = ''POST'',
      req_headers = [(''Content-Type'', ''application/json'')],
      body = JSON_stringify env (JObj
        [(''team_name'', JStr teamName),
         (''entries_json'', JStr (JSON_stringify env (JArr entries))),
         (''output_dir'', JStr (case outputDir of None \<Rightarrow> '''' | Some d \<Rightarrow> d)),
         (''save_to_system'', JBool (case saveToSystem of None \<Rightarrow> False | Some s \<Rightarrow> s))])\<rparr>"

definition generateSchedule ::
  "'b js_env \<Rightarrow> string \<Rightarrow> jsval list \<Rightarrow> string option \<Rightarrow> bool option
     \<Rightarrow> js_error + 'b generated" where
  "generateSchedule env teamName entries outputDir saveToSystem =
     (case fetch env (schedule_request env teamName entries outputDir saveToSystem) of
        None \<Rightarrow> Inl Rejected
      | Some response \<Rightarrow>
          if \<not> ok response then
            (let error = (case json response of
                            None \<Rightarrow> JObj [(''error'', JStr ''Failed to generate schedule'')]
                          | Some parsed \<Rightarrow> parsed)
             in case read_error_property error of
                  Inl e \<Rightarrow> Inl e
                | Inr None \<Rightarrow> Inl (Error ''Failed to generate schedule'')
                | Inr (Some v) \<Rightarrow>
                    Inl (Error (if truthy (Some v) then error_message env v
                                else ''Failed to generate schedule'')))
          else
            (let contentType = or_default (headers_get response ''Content-Type'') '''';
                 filename = response_filename response
             in case blob_of response of
                  None \<Rightarrow> Inl Rejected
                | Some b \<Rightarrow> Inr \<lparr>blob = b, filename = filename, contentType = contentType\<rparr>))"

section \<open>The hook \<^verbatim>\<open>useFileGeneration\<close>: \<^verbatim>\<open>createGenerateHandler\<close>\<close>

text \<open>
  The handler reads and sets the hook's state, calls four collaborators and triggers
  downloads. The state is a record; one run's collaborators are given by their outcomes
  (\<open>dataValidator\<close>: \<open>None\<close> for \<^verbatim>\<open>{valid: true}\<close>, the error text otherwise;
  \<open>apiFunction\<close>: \<open>Inl\<close> the message of what it throws; \<open>saveFileToDirectory\<close>: whether
  the write resolves); the effects of the run are returned as a list, in order.
  \<^verbatim>\<open>triggerBrowserDownload\<close> only builds and clicks a link, and is an effect that does
  not fail. Logging is left out.
  \<^verbatim>\<open>
      const validation = dataValidator();
      if (!validation.valid) { setError(validation.error); return; }
      let trimmedDir = outputDir;
      let dirHandle = null;
      if (!useDefaultDownload && !outputDir) {
        try {
          const result = await selectOutputDirectory();
          if (result === null) return;
          dirHandle = result.dirHandle;
          trimmedDir = result.dirName;
        } catch (err) {
          setError("Failed to select directory. Falling back to browser download.");
          trimmedDir = "";
        }
      }
      setOutputDir(trimmedDir); setLoading(true); setError(null); setSuccessMessage(null);
      try {
        const { blob, filename } = await apiFunction(trimmedDir);
        if (useDefaultDownload) {
          triggerBrowserDownload(blob, filename);
          setSuccessMessage(`Download complete, saved to default browser download folder as "${filename}"`);
        } else if (dirHandle) {
          try {
            await saveFileToDirectory(blob, filename, dirHandle);
            setSuccessMessage(`Download complete, saved to output: ${dirHandle.name}/${filename}`);
          } catch (err) {
            setError("Failed to save file to directory. Downloading instead.");
            triggerBrowserDownload(blob, filename);
          }
        } else {
          setSuccessMessage(`Saved to ${trimmedDir}/${filename}`);
        }
      } catch (err) {
        setError(err.message);
      } finally {
        setLoading(false);
      }
  \<close>
\<close>

record hook_state =
  error :: "string option"
  successMessage :: "string option"
  loading :: bool
  outputDir :: string
  useDefaultDownload :: bool

datatype dir_handle = DirHandle (handle_name: string)

text \<open>
  \<^verbatim>\<open>selectOutputDirectory()\<close>: the picked handle, \<^verbatim>\<open>null\<close> when the user cancels
  the picker, or an exception.
\<close>

datatype pick_result = Picked dir_handle | Cancelled | PickFailed

record 'b run_env =
  dataValidator :: "string option"
  selectOutputDirectory :: pick_result
  apiFunction :: "string \<Rightarrow> string + ('b \<times> string)"
  saveFileToDirectory :: "'b \<Rightarrow> string \<Rightarrow> dir_handle \<Rightarrow> bool"

datatype 'b effect =
    ApiCall string
  | BrowserDownload 'b string
  | DirectoryWrite dir_handle string 'b
  | DirectoryWriteFailed dir_handle string 'b

text \<open>The handler from \<^verbatim>\<open>setOutputDir(trimmedDir)\<close> on.\<close>

definition finish_generate ::
  "'b run_env \<Rightarrow> hook_state \<Rightarrow> bool \<Rightarrow> dir_handle option \<Rightarrow> string
     \<Rightarrow> hook_state \<times> 'b effect list" where
  "finish_generate env st useDefault dirHandle trimmedDir =
     (let st1 = st\<lparr>outputDir := trimmedDir, loading := True, error := None,
                   successMessage := None\<rparr>
      in case apiFunction env trimmedDir of
           Inl message \<Rightarrow>
             (st1\<lparr>error := Some message, loading := False\<rparr>, [ApiCall trimmedDir])
         | Inr (b, fname) \<Rightarrow>
             if useDefault then
               (st1\<lparr>successMessage := Some
                       (''Download complete, saved to default browser download folder as ''
                        @ [dquote] @ fname @ [dquote]),
                     loading := False\<rparr>,
                [ApiCall trimmedDir, BrowserDownload b fname])
             else
               (case dirHandle of
                  Some h \<Rightarrow>
                    if saveFileToDirectory env b fname h then
                      (st1\<lparr>successMessage := Some
                              (''Download complete, saved to output: '' @ handle_name h @ ''/''
                               @ fname),
                            loading := False\<rparr>,
                       [ApiCall trimmedDir, DirectoryWrite h fname b])
                    else
                      (st1\<lparr>error := Some
                              ''Failed to save file to directory. Downloading instead.'',
                            loading := False\<rparr>,
                       [ApiCall trimmedDir, DirectoryWriteFailed h fname b,
                        BrowserDownload b fname])
                | None \<Rightarrow>
                    (st1\<lparr>successMessage := Some (''Saved to '' @ trimmedDir @ ''/'' @ fname),
                          loading := False\<rparr>,
                     [ApiCall trimmedDir])))"

definition createGenerateHandler :: "'b run_env \<Rightarrow> hook_state \<Rightarrow> hook_state \<times> 'b effect list" where
  "createGenerateHandler env st =
     (case dataValidator env of
        Some validation_error \<Rightarrow> (st\<lparr>error := Some validation_error\<rparr>, [])
      | None \<Rightarrow>
          if \<not> useDefaultDownload st \<and> outputDir st = [] then
            (case selectOutputDirectory env of
               Cancelled \<Rightarrow> (st, [])
             | Picked h \<Rightarrow> finish_generate env st (useDefaultDownload st) (Some h) (handle_name h)
             | PickFailed \<Rightarrow>
                 finish_generate env
                   (st\<lparr>error := Some
                      ''Failed to select directory. Falling back to browser download.''\<rparr>)
                   (useDefaultDownload st) None [])
          else finish_generate env st (useDefaultDownload st) None (outputDir st))"

section \<open>The pages: SchedulePage and DailyLogsPage\<close>

subsection \<open>The column layout\<close>

text \<open>Each page declares \<^verbatim>\<open>MASTER_SCHEDULE_COLUMNS\<close> for itself.\<close>

definition MASTER_SCHEDULE_COLUMNS_SchedulePage :: "(string \<times> nat) list" where
  "MASTER_SCHEDULE_COLUMNS_SchedulePage =
     [(''county'', 0), (''bin'', 1), (''feature_carried'', 2), (''feature_crossed'', 3),
      (''prev_inspection_due_date'', 5), (''due_date'', 6), (''gr'', 9), (''access'', 15),
      (''scheduled_date'', 16), (''town'', 19)]"

definition MASTER_SCHEDULE_COLUMNS_DailyLogsPage :: "(string \<times> nat) list" where
  "MASTER_SCHEDULE_COLUMNS_DailyLogsPage =
     [(''county'', 0), (''bin'', 1), (''feature_carried'', 2), (''feature_crossed'', 3),
      (''prev_inspection_due_date'', 5), (''due_date'', 6), (''gr'', 9), (''access'', 15),
      (''scheduled_date'', 16), (''town'', 19)]"

subsection \<open>Editing a cell: \<^verbatim>\<open>handleCellChange\<close>\<close>

text \<open>
  \<^verbatim>\<open>
  setEntries((prev) => {
    const updated = [...prev];
    updated[rowIndex] = { ...updated[rowIndex], [field]: value };
    return updated;
  });
  \<close>
  \<open>prev\<close> is the array Preview delivered, a list of entry objects. An index read past the
  end gives \<^verbatim>\<open>undefined\<close>, whose spread is the empty object, and an assignment past the
  end extends the array, leaving empty slots: the result is a list of slots, \<open>None\<close> for
  an empty one. The object spread keeps the properties in place and
  \<^verbatim>\<open>[field]: value\<close> overwrites the property or appends it (\<open>AList.update\<close>).
\<close>

definition js_index :: "'a option list \<Rightarrow> nat \<Rightarrow> 'a option" where
  "js_index xs i = (if i < length xs then xs ! i else None)"

definition js_assign_index :: "'a option list \<Rightarrow> nat \<Rightarrow> 'a \<Rightarrow> 'a option list" where
  "js_assign_index xs i e =
     (if i < length xs then xs[i := Some e]
      else xs @ replicate (i - length xs) None @ [Some e])"

fun spread :: "entry option \<Rightarrow> entry" where
  "spread None = []"
| "spread (Some e) = e"

definition handleCellChange :: "entry list \<Rightarrow> nat \<Rightarrow> string \<Rightarrow> jsval \<Rightarrow> entry option list" where
  "handleCellChange prev rowIndex field v =
     (let updated = map Some prev
      in js_assign_index updated rowIndex
           (AList.update field v (spread (js_index updated rowIndex))))"

subsection \<open>The editable preview table\<close>

text \<open>
  Both pages render the entries with the same expression:
  \<^verbatim>\<open>
  {entries.map((entry, idx) => (
    <tr key={idx}>
      {["bin", "county", "feature_carried", "feature_crossed", "due_date",
        "scheduled_date", "access", "lane_closed", "town"].map((field) => (
        <td className={field === "lane_closed" && entry[field] === "Y" ? "lc-y" : ""} ...>
          {entry[field] || (field === "due_date" ? "-" : "")}
        </td>))}
    </tr>))}
  \<close>
  A cell is its class name and the child value handed to React.
\<close>

record cell =
  className :: string
  content :: jsval

definition PREVIEW_FIELDS :: "string list" where
  "PREVIEW_FIELDS =
     [''bin'', ''county'', ''feature_carried'', ''feature_crossed'', ''due_date'',
      ''scheduled_date'', ''access'', ''lane_closed'', ''town'']"

definition cell_className :: "entry \<Rightarrow> string \<Rightarrow> string" where
  "cell_className entry field =
     (if field = ''lane_closed'' \<and> get_prop entry field = Some (JStr ''Y'')
      then ''lc-y'' else '''')"

definition cell_content :: "entry \<Rightarrow> string \<Rightarrow> jsval" where
  "cell_content entry field =
     (case get_prop entry field of
        Some v \<Rightarrow> if truthy (Some v) then v
                  else JStr (if field = ''due_date'' then ''-'' else '''')
      | None \<Rightarrow> JStr (if field = ''due_date'' then ''-'' else ''''))"

definition preview_cell :: "entry \<Rightarrow> string \<Rightarrow> cell" where
  "preview_cell entry field =
     \<lparr>className = cell_className entry field, content = cell_content entry field\<rparr>"

definition preview_row :: "entry \<Rightarrow> cell list" where
  "preview_row entry = map (preview_cell entry) PREVIEW_FIELDS"

definition preview_table :: "entry list \<Rightarrow> cell list list" where
  "preview_table entries = map preview_row entries"

text \<open>A field value that is missing (\<^verbatim>\<open>undefined\<close> or \<^verbatim>\<open>null\<close>) or the empty string.\<close>

definition missing_or_empty :: "jsval option \<Rightarrow> bool" where
  "missing_or_empty v = (v = None \<or> v = Some JNull \<or> v = Some (JStr ''''))"

subsection \<open>Grouping by day: \<^verbatim>\<open>DailyLogPreview\<close>\<close>

text \<open>
  \<^verbatim>\<open>
  const entriesByDay = {};
  entries.forEach((entry) => {
    const date = new Date(entry.scheduled_date);
    const dayIndex = date.getDay();
    if (!entriesByDay[dayIndex]) {
      entriesByDay[dayIndex] = [];
    }
    entriesByDay[dayIndex].push(entry);
  });
  \<close>
  \<^verbatim>\<open>new Date(x).getDay()\<close> is the engine's (it reads the host's time zone, and is
  \<^verbatim>\<open>NaN\<close> for an invalid date): the function \<open>Date_getDay\<close> is a parameter. The object
  \<^verbatim>\<open>entriesByDay\<close> is the list of its properties, one bucket for each key.
\<close>

datatype day_index = Day nat | NaN

type_synonym day_object = "(day_index \<times> entry list) list"

definition dayIndex_of :: "(jsval option \<Rightarrow> day_index) \<Rightarrow> entry \<Rightarrow> day_index" where
  "dayIndex_of Date_getDay entry = Date_getDay (get_prop entry ''scheduled_date'')"

definition group_step :: "(jsval option \<Rightarrow> day_index) \<Rightarrow> day_object \<Rightarrow> entry \<Rightarrow> day_object" where
  "group_step Date_getDay entriesByDay entry =
     (let dayIndex = dayIndex_of Date_getDay entry;
          obj = (if map_of entriesByDay dayIndex = None
                 then AList.update dayIndex [] entriesByDay else entriesByDay)
      in AList.map_entry dayIndex (\<lambda>bucket. bucket @ [entry]) obj)"

definition entriesByDay :: "(jsval option \<Rightarrow> day_index) \<Rightarrow> entry list \<Rightarrow> day_object" where
  "entriesByDay Date_getDay entries = foldl (group_step Date_getDay) [] entries"

text \<open>Auxiliary notions of the proofs about the grouping.\<close>

definition bump :: "day_index \<Rightarrow> entry \<Rightarrow> day_index \<times> entry list \<Rightarrow> day_index \<times> entry list" where
  "bump k x p = (fst p, if fst p = k then snd p @ [x] else snd p)"

definition grouped :: "(jsval option \<Rightarrow> day_index) \<Rightarrow> day_object \<Rightarrow> entry list \<Rightarrow> bool" where
  "grouped gd obj xs =
     (distinct (map fst obj)
      \<and> fst ` set obj = dayIndex_of gd ` set xs
      \<and> (\<forall>p \<in> set obj. snd p = filter (\<lambda>e. dayIndex_of gd e = fst p) xs)
      \<and> mset (concat (map snd obj)) = mset xs)"

section \<open>The Date Expression Parser\<close>

text \<open>
  Modelled from the spec: the Date Expression Parser runs on the server, whose code is not
  among the source files (the front end only posts the pasted text to the preview
  endpoint). The definitions of this section follow section 4.1 of the specification.
\<close>

text \<open>
  Modelled from the spec: a calendar date, as the number of its day in the proleptic
  Gregorian calendar, so that \<open>(D2 - D1).days\<close> is the difference of two dates.
\<close>

type_synonym date = int

text \<open>Modelled from the spec: the calendar behind "calendar day" (leap years).\<close>

definition is_leap :: "nat \<Rightarrow> bool" where
  "is_leap y = (y mod 4 = 0 \<and> (y mod 100 \<noteq> 0 \<or> y mod 400 = 0))"

text \<open>Modelled from the spec: the calendar behind "calendar day" (lengths of the months).\<close>

definition days_in_month :: "nat \<Rightarrow> nat \<Rightarrow> nat" where
  "days_in_month y m =
     (if m = 2 then (if is_leap y then 29 else 28)
      else if m = 4 \<or> m = 6 \<or> m = 9 \<or> m = 11 then 30 else 31)"

text \<open>Modelled from the spec: the days before the first of January of year \<open>y\<close>.\<close>

definition days_before_year :: "nat \<Rightarrow> nat" where
  "days_before_year y = 365 * (y - 1) + (y - 1) div 4 - (y - 1) div 100 + (y - 1) div 400"

text \<open>Modelled from the spec: the days of year \<open>y\<close> before the first of month \<open>m\<close>.\<close>

definition days_before_month :: "nat \<Rightarrow> nat \<Rightarrow> nat" where
  "days_before_month y m = sum_list (map (days_in_month y) [1..<m])"

text \<open>Modelled from the spec: the date of a year, month and day, if there is one.\<close>

definition make_date :: "nat \<Rightarrow> nat \<Rightarrow> nat \<Rightarrow> date option" where
  "make_date y m d =
     (if 1 \<le> y \<and> 1 \<le> m \<and> m \<le> 12 \<and> 1 \<le> d \<and> d \<le> days_in_month y m
      then Some (int (days_before_year y + days_before_month y m + d))
      else None)"

text \<open>Modelled from the spec: "surrounding whitespace".\<close>

definition is_space :: "char \<Rightarrow> bool" where
  "is_space c = (c = CHR '' '' \<or> c = CHR 0x09 \<or> c = CHR 0x0A \<or> c = CHR 0x0D)"

text \<open>Modelled from the spec: the digits of \<open>MM\<close>, \<open>DD\<close>, \<open>YY\<close> and \<open>YYYY\<close>.\<close>

definition is_digit :: "char \<Rightarrow> bool" where
  "is_digit c = (c \<in> set ''0123456789'')"

text \<open>Modelled from the spec: a token or a field with the surrounding whitespace removed.\<close>

definition trim :: "string \<Rightarrow> string" where
  "trim s = rev (dropWhile is_space (rev (dropWhile is_space s)))"

text \<open>Modelled from the spec: the number a non-empty run of digits denotes.\<close>

definition parse_nat :: "string \<Rightarrow> nat option" where
  "parse_nat s =
     (if s \<noteq> [] \<and> list_all is_digit s
      then Some (foldl (\<lambda>n c. 10 * n + (of_char c - 48)) 0 s)
      else None)"

text \<open>Modelled from the spec: splitting at every \<open>/\<close> of a token, or every \<open>&\<close> of a field.\<close>

fun split_on :: "char \<Rightarrow> string \<Rightarrow> string list" where
  "split_on sep [] = [[]]"
| "split_on sep (c # cs) =
     (if c = sep then [] # split_on sep cs
      else (case split_on sep cs of
              [] \<Rightarrow> [[c]]
            | p # ps \<Rightarrow> (c # p) # ps))"

text \<open>Modelled from the spec: the separator \<open>to\<close>, "matched literally (case-insensitive)".\<close>

definition is_to :: "char \<Rightarrow> char \<Rightarrow> bool" where
  "is_to c1 c2 = ((c1 = CHR ''t'' \<or> c1 = CHR ''T'') \<and> (c2 = CHR ''o'' \<or> c2 = CHR ''O''))"

text \<open>Modelled from the spec: the two sides of the first separator \<open>to\<close> of a field.\<close>

fun split_to :: "string \<Rightarrow> (string \<times> string) option" where
  "split_to (c1 # c2 # cs) =
     (if is_to c1 c2 then Some ([], cs)
      else (case split_to (c2 # cs) of
              None \<Rightarrow> None
            | Some (l, r) \<Rightarrow> Some (c1 # l, r)))"
| "split_to [c] = None"
| "split_to [] = None"

text \<open>
  Modelled from the spec: the date token grammar, \<open>MM/DD/YY\<close> (2000 + YY), \<open>MM/DD\<close> (the
  caller's implicit year) or \<open>MM/DD/YYYY\<close>, surrounding whitespace tolerated.
\<close>

definition parse_date_token :: "nat \<Rightarrow> string \<Rightarrow> date option" where
  "parse_date_token implicit_year s =
     (case split_on (CHR ''/'') (trim s) of
        [ms, ds] \<Rightarrow>
          (case (parse_nat ms, parse_nat ds) of
             (Some m, Some d) \<Rightarrow> make_date implicit_year m d
           | _ \<Rightarrow> None)
      | [ms, ds, ys] \<Rightarrow>
          (case (parse_nat ms, parse_nat ds, parse_nat ys) of
             (Some m, Some d, Some y) \<Rightarrow>
               if length ys = 2 then make_date (2000 + y) m d
               else if length ys = 4 then make_date y m d
               else None
           | _ \<Rightarrow> None)
      | _ \<Rightarrow> None)"

text \<open>Modelled from the spec: the parse failure, "carrying the offending substring".\<close>

datatype date_error = DateParseError string

text \<open>
  Modelled from the spec: "each Di parsed independently, in listed order"; an unparseable
  token fails the whole field.
\<close>

fun parse_tokens :: "nat \<Rightarrow> string list \<Rightarrow> date_error + date list" where
  "parse_tokens implicit_year [] = Inr []"
| "parse_tokens implicit_year (t # ts) =
     (case parse_date_token implicit_year t of
        None \<Rightarrow> Inl (DateParseError (trim t))
      | Some d \<Rightarrow>
          (case parse_tokens implicit_year ts of
             Inl e \<Rightarrow> Inl e
           | Inr ds \<Rightarrow> Inr (d # ds)))"

text \<open>
  Modelled from the spec: "every calendar day from D1 through D2 inclusive, ordered
  ascending".
\<close>

definition date_range :: "date \<Rightarrow> date \<Rightarrow> date list" where
  "date_range d1 d2 = map (\<lambda>i. d1 + int i) [0..<nat (d2 - d1) + 1]"

text \<open>
  Modelled from the spec: the grammar in its precedence order, the range \<open>D1 to D2\<close>
  (failing if \<open>D2 < D1\<close>), then the multi-date \<open>D1 & D2 ...\<close>, then the single date.
\<close>

definition parse_date_expression :: "nat \<Rightarrow> string \<Rightarrow> date_error + date list" where
  "parse_date_expression implicit_year s =
     (case split_to s of
        Some (l, r) \<Rightarrow>
          (case parse_tokens implicit_year [l, r] of
             Inl e \<Rightarrow> Inl e
           | Inr ds \<Rightarrow>
               if ds ! 1 < ds ! 0 then Inl (DateParseError (trim s))
               else Inr (date_range (ds ! 0) (ds ! 1)))
      | None \<Rightarrow> parse_tokens implicit_year (split_on (CHR ''&'') s))"

chapter \<open>Properties\<close>

section \<open>Grouping by day\<close>

lemma update_fresh: "k \<notin> fst ` set al \<Longrightarrow> AList.update k v al = al @ [(k, v)]"
  by (induction al) auto

lemma map_bump_fresh: "k \<notin> fst ` set al \<Longrightarrow> map (bump k x) al = al"
  by (induction al) (auto simp: bump_def)

lemma fst_bump: "fst (bump k x p) = fst p"
  by (simp add: bump_def)

lemma map_fst_bump: "map fst (map (bump k x) obj) = map fst obj"
  by (induction obj) (simp_all add: fst_bump)

lemma map_entry_bump:
  "distinct (map fst al) \<Longrightarrow> AList.map_entry k (\<lambda>b. b @ [x]) al = map (bump k x) al"
proof (induction al)
  case Nil
  then show ?case by simp
next
  case (Cons p al)
  show ?case
  proof (cases "fst p = k")
    case True
    with Cons.prems have "k \<notin> fst ` set al" by auto
    with True show ?thesis by (cases p) (simp add: map_bump_fresh, simp add: bump_def)
  next
    case False
    with Cons show ?thesis by (cases p) (simp add: bump_def)
  qed
qed

lemma group_step_old:
  assumes "distinct (map fst obj)" and "dayIndex_of gd x \<in> fst ` set obj"
  shows "group_step gd obj x = map (bump (dayIndex_of gd x) x) obj"
  using assms by (simp add: group_step_def Let_def map_of_eq_None_iff map_entry_bump)

lemma group_step_new:
  assumes "distinct (map fst obj)" and "dayIndex_of gd x \<notin> fst ` set obj"
  shows "group_step gd obj x = obj @ [(dayIndex_of gd x, [x])]"
proof -
  let ?k = "dayIndex_of gd x"
  have d: "distinct (map fst (obj @ [(?k, [])]))"
    using assms by auto
  have "group_step gd obj x = AList.map_entry ?k (\<lambda>b. b @ [x]) (obj @ [(?k, [])])"
    using assms(2) by (simp add: group_step_def map_of_eq_None_iff update_fresh Let_def)
  also have "\<dots> = map (bump ?k x) (obj @ [(?k, [])])"
    by (rule map_entry_bump [OF d])
  also have "\<dots> = obj @ [(?k, [x])]"
    using assms(2) by (simp add: map_bump_fresh) (simp add: bump_def)
  finally show ?thesis .
qed

lemma mset_concat_bump:
  "distinct (map fst obj) \<Longrightarrow> k \<in> fst ` set obj \<Longrightarrow>
     mset (concat (map snd (map (bump k x) obj))) = mset (concat (map snd obj)) + {#x#}"
proof (induction obj)
  case Nil
  then show ?case by simp
next
  case (Cons p obj)
  show ?case
  proof (cases "fst p = k")
    case True
    with Cons.prems have "k \<notin> fst ` set obj" by auto
    with True show ?thesis by (simp add: map_bump_fresh) (simp add: bump_def)
  next
    case False
    with Cons have ih:
      "mset (concat (map snd (map (bump k x) obj))) = mset (concat (map snd obj)) + {#x#}"
      by auto
    from False have "bump k x p = p" by (cases p) (simp add: bump_def)
    with ih show ?thesis by simp
  qed
qed

lemma grouped_step:
  assumes "grouped gd obj xs"
  shows "grouped gd (group_step gd obj x) (xs @ [x])"
proof (cases "dayIndex_of gd x \<in> fst ` set obj")
  case True
  let ?k = "dayIndex_of gd x"
  from assms have d: "distinct (map fst obj)"
    and dom: "fst ` set obj = dayIndex_of gd ` set xs"
    and bk: "\<forall>p \<in> set obj. snd p = filter (\<lambda>e. dayIndex_of gd e = fst p) xs"
    and ms: "mset (concat (map snd obj)) = mset xs"
    by (simp_all add: grouped_def)
  have eq: "group_step gd obj x = map (bump ?k x) obj"
    by (rule group_step_old [OF d True])
  have keys: "map fst (map (bump ?k x) obj) = map fst obj"
    by (rule map_fst_bump)
  have 1: "distinct (map fst (map (bump ?k x) obj))"
    using d by (simp only: keys)
  have "fst ` set (map (bump ?k x) obj) = set (map fst (map (bump ?k x) obj))"
    by (simp only: set_map)
  also have "\<dots> = fst ` set obj"
    by (simp only: keys set_map)
  finally have 2: "fst ` set (map (bump ?k x) obj) = dayIndex_of gd ` set (xs @ [x])"
    using True dom by auto
  have 3: "\<forall>p \<in> set (map (bump ?k x) obj).
             snd p = filter (\<lambda>e. dayIndex_of gd e = fst p) (xs @ [x])"
    using bk by (auto simp: bump_def)
  have 4: "mset (concat (map snd (map (bump ?k x) obj))) = mset (xs @ [x])"
    using mset_concat_bump [OF d True] ms by simp
  show ?thesis
    unfolding grouped_def eq using 1 2 3 4 by blast
next
  case False
  let ?k = "dayIndex_of gd x"
  from assms have d: "distinct (map fst obj)"
    and dom: "fst ` set obj = dayIndex_of gd ` set xs"
    and bk: "\<forall>p \<in> set obj. snd p = filter (\<lambda>e. dayIndex_of gd e = fst p) xs"
    and ms: "mset (concat (map snd obj)) = mset xs"
    by (simp_all add: grouped_def)
  have eq: "group_step gd obj x = obj @ [(?k, [x])]"
    by (rule group_step_new [OF d False])
  have none: "filter (\<lambda>e. dayIndex_of gd e = ?k) xs = []"
  proof -
    have "\<forall>e \<in> set xs. dayIndex_of gd e \<noteq> ?k"
      using False dom by (metis imageI)
    then show ?thesis by (simp add: filter_empty_conv)
  qed
  have 1: "distinct (map fst (obj @ [(?k, [x])]))"
    using d False by auto
  have 2: "fst ` set (obj @ [(?k, [x])]) = dayIndex_of gd ` set (xs @ [x])"
    using dom by auto
  have 3: "\<forall>p \<in> set (obj @ [(?k, [x])]).
             snd p = filter (\<lambda>e. dayIndex_of gd e = fst p) (xs @ [x])"
    using bk none False by (auto simp: rev_image_eqI)
  have 4: "mset (concat (map snd (obj @ [(?k, [x])]))) = mset (xs @ [x])"
    using ms by simp
  show ?thesis
    unfolding grouped_def eq using 1 2 3 4 by blast
qed

lemma grouped_foldl:
  "grouped gd obj xs \<Longrightarrow> grouped gd (foldl (group_step gd) obj ys) (xs @ ys)"
proof (induction ys arbitrary: obj xs)
  case Nil
  then show ?case by simp
next
  case (Cons y ys)
  from Cons.IH [OF grouped_step [OF Cons.prems, of y]] show ?case by simp
qed

lemma grouped_entriesByDay: "grouped gd (entriesByDay gd entries) entries"
  using grouped_foldl [of gd "[]" "[]" entries] by (simp add: entriesByDay_def grouped_def)

text \<open>
  C1. Whatever the engine's \<^verbatim>\<open>getDay\<close> returns, the buckets of \<^verbatim>\<open>entriesByDay\<close> hold,
  order ignored, exactly the entries of the input, each as often as the input has it; the
  keys are pairwise different; the bucket of a key is the input filtered by that key, so
  an entry of the input stands in a bucket if and only if the bucket's key is the entry's
  day index, and such a bucket exists.
\<close>

theorem entriesByDay_partition:
  "mset (concat (map snd (entriesByDay Date_getDay entries))) = mset entries
   \<and> distinct (map fst (entriesByDay Date_getDay entries))
   \<and> (\<forall>p \<in> set (entriesByDay Date_getDay entries).
         snd p = filter (\<lambda>e. dayIndex_of Date_getDay e = fst p) entries)
   \<and> (\<forall>e \<in> set entries. \<forall>p \<in> set (entriesByDay Date_getDay entries).
         (e \<in> set (snd p)) = (fst p = dayIndex_of Date_getDay e))
   \<and> (\<forall>e \<in> set entries.
         \<exists>b. (dayIndex_of Date_getDay e, b) \<in> set (entriesByDay Date_getDay entries))"
proof -
  let ?G = "entriesByDay Date_getDay entries"
  have g: "grouped Date_getDay ?G entries" by (rule grouped_entriesByDay)
  then have 1: "mset (concat (map snd ?G)) = mset entries"
    and 2: "distinct (map fst ?G)"
    and 3: "\<forall>p \<in> set ?G. snd p = filter (\<lambda>e. dayIndex_of Date_getDay e = fst p) entries"
    and dom: "fst ` set ?G = dayIndex_of Date_getDay ` set entries"
    by (simp_all add: grouped_def)
  have 4: "\<forall>e \<in> set entries. \<forall>p \<in> set ?G.
             (e \<in> set (snd p)) = (fst p = dayIndex_of Date_getDay e)"
    using 3 by auto
  have 5: "\<forall>e \<in> set entries. \<exists>b. (dayIndex_of Date_getDay e, b) \<in> set ?G"
  proof
    fix e assume "e \<in> set entries"
    then have "dayIndex_of Date_getDay e \<in> fst ` set ?G" using dom by blast
    then show "\<exists>b. (dayIndex_of Date_getDay e, b) \<in> set ?G" by force
  qed
  from 1 2 3 4 5 show ?thesis by blast
qed

theorem entriesByDay_partition_witness:
  "entriesByDay
     (\<lambda>v. if v = Some (JStr ''2025-10-14'') then Day 2
           else if v = Some (JStr ''2025-10-15'') then Day 3 else NaN)
     [[(''bin'', JStr ''1''), (''scheduled_date'', JStr ''2025-10-14'')],
      [(''bin'', JStr ''2''), (''scheduled_date'', JStr ''2025-10-15'')],
      [(''bin'', JStr ''3''), (''scheduled_date'', JStr ''2025-10-14'')],
      [(''bin'', JStr ''4'')]]
   = [(Day 2, [[(''bin'', JStr ''1''), (''scheduled_date'', JStr ''2025-10-14'')],
               [(''bin'', JStr ''3''), (''scheduled_date'', JStr ''2025-10-14'')]]),
      (Day 3, [[(''bin'', JStr ''2''), (''scheduled_date'', JStr ''2025-10-15'')]]),
      (NaN, [[(''bin'', JStr ''4'')]])]
   \<and> mset (concat (map snd (entriesByDay
        (\<lambda>v. if v = Some (JStr ''2025-10-14'') then Day 2
              else if v = Some (JStr ''2025-10-15'') then Day 3 else NaN)
        [[(''bin'', JStr ''1''), (''scheduled_date'', JStr ''2025-10-14'')],
         [(''bin'', JStr ''2''), (''scheduled_date'', JStr ''2025-10-15'')],
         [(''bin'', JStr ''3''), (''scheduled_date'', JStr ''2025-10-14'')],
         [(''bin'', JStr ''4'')]])))
     = mset [[(''bin'', JStr ''1''), (''scheduled_date'', JStr ''2025-10-14'')],
             [(''bin'', JStr ''2''), (''scheduled_date'', JStr ''2025-10-15'')],
             [(''bin'', JStr ''3''), (''scheduled_date'', JStr ''2025-10-14'')],
             [(''bin'', JStr ''4'')]]"
proof -
  let ?gd = "\<lambda>v. if v = Some (JStr ''2025-10-14'') then Day 2
                  else if v = Some (JStr ''2025-10-15'') then Day 3 else NaN"
  let ?es = "[[(''bin'', JStr ''1''), (''scheduled_date'', JStr ''2025-10-14'')],
              [(''bin'', JStr ''2''), (''scheduled_date'', JStr ''2025-10-15'')],
              [(''bin'', JStr ''3''), (''scheduled_date'', JStr ''2025-10-14'')],
              [(''bin'', JStr ''4'')]]"
  have a: "entriesByDay ?gd ?es
     = [(Day 2, [[(''bin'', JStr ''1''), (''scheduled_date'', JStr ''2025-10-14'')],
                 [(''bin'', JStr ''3''), (''scheduled_date'', JStr ''2025-10-14'')]]),
        (Day 3, [[(''bin'', JStr ''2''), (''scheduled_date'', JStr ''2025-10-15'')]]),
        (NaN, [[(''bin'', JStr ''4'')]])]"
    by (simp add: entriesByDay_def group_step_def dayIndex_of_def get_prop_def)
  have b: "mset (concat (map snd (entriesByDay ?gd ?es))) = mset ?es"
    using entriesByDay_partition [of ?gd ?es] by (rule conjunct1)
  from a b show ?thesis by (rule conjI)
qed

section \<open>The column layout\<close>

text \<open>
  C2. The column layout is a constant: the two pages declare the same mapping, which sends
  county to 0, bin to 1, feature_carried to 2, feature_crossed to 3, the previous
  inspection's due date to 5, due_date to 6, gr to 9, access to 15, scheduled_date to 16
  and town to 19; it has these ten fields and no other, and the indices 4, 7, 8, 10 to
  14, 17 and 18 are not used.
\<close>

theorem master_schedule_columns_fixed:
  "MASTER_SCHEDULE_COLUMNS_SchedulePage = MASTER_SCHEDULE_COLUMNS_DailyLogsPage
   \<and> map_of MASTER_SCHEDULE_COLUMNS_SchedulePage ''county'' = Some 0
   \<and> map_of MASTER_SCHEDULE_COLUMNS_SchedulePage ''bin'' = Some 1
   \<and> map_of MASTER_SCHEDULE_COLUMNS_SchedulePage ''feature_carried'' = Some 2
   \<and> map_of MASTER_SCHEDULE_COLUMNS_SchedulePage ''feature_crossed'' = Some 3
   \<and> map_of MASTER_SCHEDULE_COLUMNS_SchedulePage ''prev_inspection_due_date'' = Some 5
   \<and> map_of MASTER_SCHEDULE_COLUMNS_SchedulePage ''due_date'' = Some 6
   \<and> map_of MASTER_SCHEDULE_COLUMNS_SchedulePage ''gr'' = Some 9
   \<and> map_of MASTER_SCHEDULE_COLUMNS_SchedulePage ''access'' = Some 15
   \<and> map_of MASTER_SCHEDULE_COLUMNS_SchedulePage ''scheduled_date'' = Some 16
   \<and> map_of MASTER_SCHEDULE_COLUMNS_SchedulePage ''town'' = Some 19
   \<and> length MASTER_SCHEDULE_COLUMNS_SchedulePage = 10
   \<and> distinct (map fst MASTER_SCHEDULE_COLUMNS_SchedulePage)
   \<and> map snd MASTER_SCHEDULE_COLUMNS_SchedulePage = [0, 1, 2, 3, 5, 6, 9, 15, 16, 19]"
  by (simp add: MASTER_SCHEDULE_COLUMNS_SchedulePage_def
        MASTER_SCHEDULE_COLUMNS_DailyLogsPage_def)

section \<open>The generate handler\<close>

lemma finish_generate_write_failed:
  assumes "DirectoryWriteFailed h fn b \<in> set (snd (finish_generate env st u dh d))"
  shows "dh = Some h \<and> \<not> u \<and> apiFunction env d = Inr (b, fn)
         \<and> \<not> saveFileToDirectory env b fn h
         \<and> finish_generate env st u dh d =
           (st\<lparr>outputDir := d, loading := False,
               error := Some ''Failed to save file to directory. Downloading instead.'',
               successMessage := None\<rparr>,
            [ApiCall d, DirectoryWriteFailed h fn b, BrowserDownload b fn])"
  using assms
  by (auto simp: finish_generate_def Let_def split: sum.splits option.splits if_splits prod.splits)

lemma picked_directory_write_fails:
  assumes "dataValidator env = None" and "\<not> useDefaultDownload st" and "outputDir st = []"
    and "selectOutputDirectory env = Picked h"
    and "apiFunction env (handle_name h) = Inr (b, fn)"
    and "\<not> saveFileToDirectory env b fn h"
  shows "createGenerateHandler env st =
           (st\<lparr>outputDir := handle_name h, loading := False,
               error := Some ''Failed to save file to directory. Downloading instead.'',
               successMessage := None\<rparr>,
            [ApiCall (handle_name h), DirectoryWriteFailed h fn b, BrowserDownload b fn])"
  using assms by (simp add: createGenerateHandler_def finish_generate_def)

text \<open>
  With a directory typed into the form the handler passes it to the API and performs
  neither a write nor a download of its own; after a failed directory pick it does not
  download either.
\<close>

lemma typed_directory_no_download:
  assumes "\<not> useDefaultDownload st" and "outputDir st \<noteq> []"
  shows "BrowserDownload b fn \<notin> set (snd (createGenerateHandler env st))
         \<and> DirectoryWrite h fn b \<notin> set (snd (createGenerateHandler env st))
         \<and> DirectoryWriteFailed h fn b \<notin> set (snd (createGenerateHandler env st))"
  using assms
  by (auto simp: createGenerateHandler_def finish_generate_def Let_def
        split: option.splits sum.splits prod.splits)

lemma pick_failed_no_download:
  assumes "\<not> useDefaultDownload st" and "outputDir st = []"
    and "selectOutputDirectory env = PickFailed"
  shows "BrowserDownload b fn \<notin> set (snd (createGenerateHandler env st))"
  using assms
  by (auto simp: createGenerateHandler_def finish_generate_def Let_def
        split: option.splits sum.splits prod.splits)

text \<open>
  C3. A run of the generate handler in which the write of the generated file to the
  chosen directory fails is a run in which the user picked a directory, the API call
  delivered the document and \<^verbatim>\<open>saveFileToDirectory\<close> rejected. Every such run ends
  normally with the loading flag cleared, the error message "Failed to save file to
  directory. Downloading instead." is set, and the same document is handed to the browser
  download under the same file name, right after the failed write: the effects of the run
  are the API call, the failed write and the download.
\<close>

theorem directory_write_failure_downloads:
  assumes "DirectoryWriteFailed h fn b \<in> set (snd (createGenerateHandler env st))"
  shows "selectOutputDirectory env = Picked h
         \<and> apiFunction env (handle_name h) = Inr (b, fn)
         \<and> \<not> saveFileToDirectory env b fn h
         \<and> snd (createGenerateHandler env st)
             = [ApiCall (handle_name h), DirectoryWriteFailed h fn b, BrowserDownload b fn]
         \<and> error (fst (createGenerateHandler env st))
             = Some ''Failed to save file to directory. Downloading instead.''
         \<and> loading (fst (createGenerateHandler env st)) = False"
proof (cases "dataValidator env")
  case (Some e)
  with assms show ?thesis by (simp add: createGenerateHandler_def)
next
  case None
  show ?thesis
  proof (cases "\<not> useDefaultDownload st \<and> outputDir st = []")
    case False
    with None assms have "DirectoryWriteFailed h fn b
        \<in> set (snd (finish_generate env st (useDefaultDownload st) None (outputDir st)))"
      by (simp add: createGenerateHandler_def split: if_splits)
    from finish_generate_write_failed [OF this] show ?thesis by simp
  next
    case True
    show ?thesis
    proof (cases "selectOutputDirectory env")
      case Cancelled
      with None True assms show ?thesis by (simp add: createGenerateHandler_def)
    next
      case PickFailed
      with None True assms have "DirectoryWriteFailed h fn b
          \<in> set (snd (finish_generate env
                (st\<lparr>error := Some
                   ''Failed to select directory. Falling back to browser download.''\<rparr>)
                (useDefaultDownload st) None []))"
        by (simp add: createGenerateHandler_def)
      from finish_generate_write_failed [OF this] show ?thesis by simp
    next
      case (Picked h')
      with None True have run: "createGenerateHandler env st
          = finish_generate env st (useDefaultDownload st) (Some h') (handle_name h')"
        by (simp add: createGenerateHandler_def)
      with assms have "DirectoryWriteFailed h fn b
          \<in> set (snd (finish_generate env st (useDefaultDownload st) (Some h') (handle_name h')))"
        by simp
      from finish_generate_write_failed [OF this] Picked run show ?thesis by auto
    qed
  qed
qed

theorem directory_write_failure_downloads_witness:
  "snd (createGenerateHandler
          \<lparr>dataValidator = None, selectOutputDirectory = Picked (DirHandle ''out''),
           apiFunction = (\<lambda>d. Inr (7 :: nat, ''schedule.xlsx'')),
           saveFileToDirectory = (\<lambda>b f h. False)\<rparr>
          \<lparr>error = None, successMessage = None, loading = False, outputDir = '''',
           useDefaultDownload = False\<rparr>)
     = [ApiCall ''out'', DirectoryWriteFailed (DirHandle ''out'') ''schedule.xlsx'' 7,
        BrowserDownload 7 ''schedule.xlsx'']
   \<and> error (fst (createGenerateHandler
          \<lparr>dataValidator = None, selectOutputDirectory = Picked (DirHandle ''out''),
           apiFunction = (\<lambda>d. Inr (7 :: nat, ''schedule.xlsx'')),
           saveFileToDirectory = (\<lambda>b f h. False)\<rparr>
          \<lparr>error = None, successMessage = None, loading = False, outputDir = '''',
           useDefaultDownload = False\<rparr>))
     = Some ''Failed to save file to directory. Downloading instead.''
   \<and> loading (fst (createGenerateHandler
          \<lparr>dataValidator = None, selectOutputDirectory = Picked (DirHandle ''out''),
           apiFunction = (\<lambda>d. Inr (7 :: nat, ''schedule.xlsx'')),
           saveFileToDirectory = (\<lambda>b f h. False)\<rparr>
          \<lparr>error = None, successMessage = None, loading = False, outputDir = '''',
           useDefaultDownload = False\<rparr>)) = False"
proof -
  let ?env = "\<lparr>dataValidator = None, selectOutputDirectory = Picked (DirHandle ''out''),
           apiFunction = (\<lambda>d. Inr (7 :: nat, ''schedule.xlsx'')),
           saveFileToDirectory = (\<lambda>b f h. False)\<rparr>"
  let ?st = "\<lparr>error = None, successMessage = None, loading = False, outputDir = '''',
           useDefaultDownload = False\<rparr>"
  have run: "snd (createGenerateHandler ?env ?st)
     = [ApiCall ''out'', DirectoryWriteFailed (DirHandle ''out'') ''schedule.xlsx'' 7,
        BrowserDownload 7 ''schedule.xlsx'']"
    by (simp add: createGenerateHandler_def finish_generate_def)
  have "DirectoryWriteFailed (DirHandle ''out'') ''schedule.xlsx'' 7
          \<in> set (snd (createGenerateHandler ?env ?st))"
    by (simp add: run)
  from directory_write_failure_downloads [OF this] run show ?thesis by simp
qed

section \<open>The Date Expression Parser\<close>

text \<open>
  The numbering of the days follows the calendar: the day after a date of the model is the
  next day of the month, the first of the next month, or the first of January of the next
  year.
\<close>

lemma days_before_month_Suc:
  "1 \<le> m \<Longrightarrow> days_before_month y (Suc m) = days_before_month y m + days_in_month y m"
  by (simp add: days_before_month_def)

lemma days_before_month_13:
  "days_before_month y 13 = (if is_leap y then 366 else 365)"
  by (simp add: days_before_month_def days_in_month_def upt_conv_Cons)

lemma days_in_month_pos: "1 \<le> days_in_month y m"
  by (simp add: days_in_month_def)

lemma div_Suc_step:
  "0 < c \<Longrightarrow> Suc k div c = k div c + (if Suc k mod c = 0 then 1 else 0)"
  by (simp add: div_Suc mod_Suc)

lemma mod_zero_divisor: "(c::nat) dvd b \<Longrightarrow> a mod b = 0 \<Longrightarrow> a mod c = 0"
  by (metis mod_mod_cancel mod_0)

lemma days_before_year_Suc:
  "days_before_year (Suc (Suc k))
     = days_before_year (Suc k) + (if is_leap (Suc k) then 366 else 365)"
proof -
  have le: "k div 100 \<le> k div 4"
    by (simp add: div_le_mono2)
  have d4: "Suc k div 4 = k div 4 + (if Suc k mod 4 = 0 then 1 else 0)"
    by (rule div_Suc_step) simp
  have d100: "Suc k div 100 = k div 100 + (if Suc k mod 100 = 0 then 1 else 0)"
    by (rule div_Suc_step) simp
  have d400: "Suc k div 400 = k div 400 + (if Suc k mod 400 = 0 then 1 else 0)"
    by (rule div_Suc_step) simp
  have m1: "Suc k mod 100 = 0 \<Longrightarrow> Suc k mod 4 = 0"
    by (rule mod_zero_divisor [of 4 100]) simp_all
  have m2: "Suc k mod 400 = 0 \<Longrightarrow> Suc k mod 100 = 0"
    by (rule mod_zero_divisor [of 100 400]) simp_all
  define a where "a = k div 4"
  define b where "b = k div 100"
  define c where "c = k div 400"
  define p where "p = (Suc k mod 4 = 0)"
  define q where "q = (Suc k mod 100 = 0)"
  define r where "r = (Suc k mod 400 = 0)"
  have ba: "b \<le> a" using le by (simp add: a_def b_def)
  have qp: "q \<Longrightarrow> p" using m1 by (simp add: p_def q_def)
  have rq: "r \<Longrightarrow> q" using m2 by (simp add: q_def r_def)
  have "365 * Suc k + (a + (if p then 1 else 0)) - (b + (if q then 1 else 0))
          + (c + (if r then 1 else 0))
        = 365 * k + a - b + c + (if p \<and> (\<not> q \<or> r) then 366 else 365)"
    using ba qp rq by (cases p; cases q; cases r) auto
  then show ?thesis
    unfolding days_before_year_def is_leap_def
    by (simp only: diff_Suc_1 d4 d100 d400 a_def b_def c_def p_def q_def r_def)
qed

lemma next_day_same_month:
  assumes "make_date y m d = Some n" and "d < days_in_month y m"
  shows "make_date y m (Suc d) = Some (n + 1)"
  using assms by (auto simp: make_date_def split: if_splits)

lemma next_day_next_month:
  assumes "make_date y m (days_in_month y m) = Some n" and "m < 12"
  shows "make_date y (Suc m) 1 = Some (n + 1)"
proof -
  from assms(1) have y: "1 \<le> y" and m: "1 \<le> m"
    and n: "n = int (days_before_year y + days_before_month y m + days_in_month y m)"
    by (auto simp: make_date_def split: if_splits)
  have "make_date y (Suc m) 1
          = Some (int (days_before_year y + days_before_month y (Suc m) + 1))"
    using y assms(2) days_in_month_pos [of y "Suc m"] by (simp add: make_date_def)
  also have "\<dots> = Some (n + 1)"
    by (simp add: n days_before_month_Suc [OF m])
  finally show ?thesis .
qed

lemma next_day_next_year:
  assumes "make_date y 12 31 = Some n"
  shows "make_date (Suc y) 1 1 = Some (n + 1)"
proof -
  from assms have y: "1 \<le> y"
    and n: "n = int (days_before_year y + days_before_month y 12 + 31)"
    by (auto simp: make_date_def split: if_splits)
  from y obtain k where k: "y = Suc k" by (cases y) auto
  have "days_before_month y 13 = days_before_month y 12 + days_in_month y 12"
    using days_before_month_Suc [of 12 y] by simp
  then have "days_before_month y 12 + 31 = (if is_leap y then 366 else 365)"
    by (simp add: days_before_month_13 days_in_month_def)
  then have "days_before_year y + days_before_month y 12 + 31 = days_before_year (Suc y)"
    using days_before_year_Suc [of k] by (simp add: k)
  then have "n + 1 = int (days_before_year (Suc y) + 1)"
    using n by simp
  moreover have "make_date (Suc y) 1 1 = Some (int (days_before_year (Suc y) + 1))"
    by (simp add: make_date_def days_before_month_def days_in_month_def)
  ultimately show ?thesis by simp
qed

lemma split_to_first:
  "\<forall>c \<in> set l. c \<noteq> CHR ''t'' \<and> c \<noteq> CHR ''T'' \<Longrightarrow> split_to (l @ ''to'' @ r) = Some (l, r)"
proof (induction l)
  case Nil
  then show ?case by (simp add: is_to_def)
next
  case (Cons c l)
  then have ih: "split_to (l @ ''to'' @ r) = Some (l, r)" by simp
  from Cons.prems have c: "\<And>c2. \<not> is_to c c2" by (simp add: is_to_def)
  show ?case
  proof (cases l)
    case Nil
    with ih c show ?thesis by simp
  next
    case (Cons c2 l2)
    with ih c show ?thesis by simp
  qed
qed

lemma set_dropWhile_cover: "set xs \<subseteq> set (dropWhile P xs) \<union> {x. P x}"
  by (induction xs) auto

lemma dropWhile_snoc_space:
  "dropWhile is_space (rev (dropWhile is_space (s @ '' '')))
     = dropWhile is_space (rev (dropWhile is_space s))"
proof (cases "\<forall>c \<in> set s. is_space c")
  case True
  have sp: "is_space (CHR '' '')" by (simp add: is_space_def)
  from True have a: "dropWhile is_space s = []" by simp
  from True sp have b: "dropWhile is_space (s @ '' '') = []" by simp
  show ?thesis unfolding a b by (rule refl)
next
  case False
  have sp: "is_space (CHR '' '')" by (simp add: is_space_def)
  from False have "dropWhile is_space (s @ '' '') = dropWhile is_space s @ '' ''"
    by (auto simp: dropWhile_append)
  then show ?thesis using sp by simp
qed

lemma trim_space_right: "trim (s @ '' '') = trim s"
  unfolding trim_def by (simp only: dropWhile_snoc_space)

lemma trim_space_left: "trim (CHR '' '' # s) = trim s"
  by (simp add: trim_def is_space_def)

lemma set_split_on: "set s \<subseteq> (\<Union>p \<in> set (split_on sep s). set p) \<union> {sep}"
proof (induction s)
  case Nil
  then show ?case by simp
next
  case (Cons c s)
  show ?case
  proof (cases "c = sep")
    case True
    with Cons show ?thesis by auto
  next
    case False
    show ?thesis
    proof (cases "split_on sep s")
      case Nil
      with Cons False show ?thesis by auto
    next
      case (Cons p ps)
      with Cons.IH False show ?thesis by auto
    qed
  qed
qed

lemma set_trim: "set s \<subseteq> set (trim s) \<union> {c. is_space c}"
proof -
  have a: "set s \<subseteq> set (dropWhile is_space s) \<union> {c. is_space c}"
    by (rule set_dropWhile_cover)
  have "set (rev (dropWhile is_space s))
          \<subseteq> set (dropWhile is_space (rev (dropWhile is_space s))) \<union> {c. is_space c}"
    by (rule set_dropWhile_cover)
  then have b: "set (dropWhile is_space s) \<subseteq> set (trim s) \<union> {c. is_space c}"
    by (simp add: trim_def)
  from a b show ?thesis by blast
qed

lemma parse_nat_digits: "parse_nat s = Some n \<Longrightarrow> \<forall>c \<in> set s. is_digit c"
  by (auto simp: parse_nat_def list_all_iff split: if_splits)

lemma token_parts:
  assumes "parse_date_token iy t = Some d"
  shows "list_all (\<lambda>p. parse_nat p \<noteq> None) (split_on (CHR ''/'') (trim t))"
proof (cases "split_on (CHR ''/'') (trim t)")
  case Nil
  then show ?thesis by simp
next
  case c1: (Cons a as)
  show ?thesis
  proof (cases as)
    case Nil
    with c1 assms show ?thesis by (simp add: parse_date_token_def)
  next
    case c2: (Cons b bs)
    show ?thesis
    proof (cases bs)
      case Nil
      with c1 c2 assms show ?thesis
        by (simp add: parse_date_token_def split: option.splits)
    next
      case c3: (Cons c cs)
      show ?thesis
      proof (cases cs)
        case Nil
        with c1 c2 c3 assms show ?thesis
          by (simp add: parse_date_token_def split: option.splits)
      next
        case (Cons e es)
        with c1 c2 c3 assms show ?thesis by (simp add: parse_date_token_def)
      qed
    qed
  qed
qed

lemma token_chars:
  assumes "parse_date_token iy t = Some d"
  shows "\<forall>c \<in> set t. is_space c \<or> is_digit c \<or> c = CHR ''/''"
proof -
  have parts: "\<forall>p \<in> set (split_on (CHR ''/'') (trim t)). \<forall>c \<in> set p. is_digit c"
  proof
    fix p assume "p \<in> set (split_on (CHR ''/'') (trim t))"
    with token_parts [OF assms] have "parse_nat p \<noteq> None" by (simp add: list_all_iff)
    then show "\<forall>c \<in> set p. is_digit c" using parse_nat_digits by blast
  qed
  have "\<forall>c \<in> set (trim t). is_digit c \<or> c = CHR ''/''"
    using parts set_split_on [of "trim t" "CHR ''/''"] by blast
  then show ?thesis using set_trim [of t] by blast
qed

lemma token_char_not_t:
  "is_space c \<or> is_digit c \<or> c = CHR ''/'' \<Longrightarrow> c \<noteq> CHR ''t'' \<and> c \<noteq> CHR ''T''"
  by (auto simp: is_space_def is_digit_def)

lemma token_no_t:
  assumes "parse_date_token iy t = Some d"
  shows "\<forall>c \<in> set (t @ '' ''). c \<noteq> CHR ''t'' \<and> c \<noteq> CHR ''T''"
proof
  fix c assume "c \<in> set (t @ '' '')"
  then have "c \<in> set t \<or> c = CHR '' ''" by auto
  then have "is_space c \<or> is_digit c \<or> c = CHR ''/''"
    using token_chars [OF assms] by (auto simp: is_space_def)
  then show "c \<noteq> CHR ''t'' \<and> c \<noteq> CHR ''T''" by (rule token_char_not_t)
qed

lemma parse_range_split:
  assumes "parse_date_token iy t1 = Some d1"
  shows "split_to (t1 @ '' to '' @ t2) = Some (t1 @ '' '', '' '' @ t2)"
proof -
  have "split_to ((t1 @ '' '') @ ''to'' @ ('' '' @ t2)) = Some (t1 @ '' '', '' '' @ t2)"
    by (rule split_to_first [OF token_no_t [OF assms]])
  then show ?thesis by simp
qed

lemma token_padded:
  "parse_date_token iy (t @ '' '') = parse_date_token iy t"
  "parse_date_token iy (CHR '' '' # t) = parse_date_token iy t"
  unfolding parse_date_token_def by (simp_all only: trim_space_right trim_space_left)

lemma date_range_length: "length (date_range d1 d2) = nat (d2 - d1) + 1"
  by (simp add: date_range_def)

lemma date_range_nth: "i < length (date_range d1 d2) \<Longrightarrow> date_range d1 d2 ! i = d1 + int i"
  unfolding date_range_def by (simp only: length_map length_upt nth_map nth_upt)

lemma date_range_hd: "hd (date_range d1 d2) = d1"
proof -
  have "date_range d1 d2 \<noteq> []"
    using date_range_length [of d1 d2] by (metis length_0_conv add_is_0 one_neq_zero)
  then have "hd (date_range d1 d2) = date_range d1 d2 ! 0" by (simp add: hd_conv_nth)
  also have "\<dots> = d1 + int 0"
    by (rule date_range_nth) (simp add: date_range_length)
  finally show ?thesis by simp
qed

lemma date_range_last: "d1 \<le> d2 \<Longrightarrow> last (date_range d1 d2) = d2"
proof -
  assume le: "d1 \<le> d2"
  have ne: "date_range d1 d2 \<noteq> []"
    using date_range_length [of d1 d2] by (metis length_0_conv add_is_0 one_neq_zero)
  then have "last (date_range d1 d2) = date_range d1 d2 ! (length (date_range d1 d2) - 1)"
    by (simp add: last_conv_nth)
  also have "\<dots> = d1 + int (length (date_range d1 d2) - 1)"
    by (rule date_range_nth) (simp add: date_range_length)
  also have "\<dots> = d2" using le by (simp add: date_range_length)
  finally show ?thesis .
qed

lemma parse_range_expression:
  assumes "parse_date_token iy t1 = Some d1" and "parse_date_token iy t2 = Some d2"
  shows "parse_date_expression iy (t1 @ '' to '' @ t2)
           = (if d2 < d1 then Inl (DateParseError (trim (t1 @ '' to '' @ t2)))
              else Inr (date_range d1 d2))"
proof -
  have l: "parse_date_token iy (t1 @ '' '') = Some d1"
    using assms(1) by (simp only: token_padded)
  have r: "parse_date_token iy (CHR '' '' # t2) = Some d2"
    using assms(2) by (simp only: token_padded)
  have toks: "parse_tokens iy [t1 @ '' '', CHR '' '' # t2] = Inr [d1, d2]"
    by (simp only: parse_tokens.simps l r option.case sum.case)
  have sp: "split_to (t1 @ '' to '' @ t2) = Some (t1 @ '' '', CHR '' '' # t2)"
    using parse_range_split [OF assms(1), of t2] by simp
  show ?thesis
    unfolding parse_date_expression_def sp
    by (simp only: option.case prod.case toks sum.case) simp
qed

lemmas date_eval = parse_date_token_def trim_def is_space_def parse_nat_def is_digit_def
  make_date_def days_in_month_def days_before_year_def days_before_month_def is_leap_def
  upt_conv_Cons

text \<open>
  C4. For date tokens that parse to \<open>D1\<close> and \<open>D2\<close>, the parser modelled from the spec, on
  the range expression \<open>D1 to D2\<close>: if \<open>D1 \<le> D2\<close> it returns a sequence of length
  \<open>(D2 - D1).days + 1\<close> whose \<open>i\<close>-th date is the \<open>i\<close>-th day after \<open>D1\<close>, from \<open>D1\<close> itself
  through \<open>D2\<close>; if \<open>D2 < D1\<close> it fails.
\<close>

theorem range_expression_expands:
  assumes "parse_date_token iy t1 = Some d1" and "parse_date_token iy t2 = Some d2"
  shows "(d1 \<le> d2 \<longrightarrow>
            (\<exists>ds. parse_date_expression iy (t1 @ '' to '' @ t2) = Inr ds
                  \<and> length ds = nat (d2 - d1) + 1
                  \<and> (\<forall>i < length ds. ds ! i = d1 + int i)
                  \<and> hd ds = d1 \<and> last ds = d2))
         \<and> (d2 < d1 \<longrightarrow> (\<exists>e. parse_date_expression iy (t1 @ '' to '' @ t2) = Inl e))"
proof (intro conjI impI)
  assume le: "d1 \<le> d2"
  then have "parse_date_expression iy (t1 @ '' to '' @ t2) = Inr (date_range d1 d2)"
    by (simp only: parse_range_expression [OF assms]) simp
  then show "\<exists>ds. parse_date_expression iy (t1 @ '' to '' @ t2) = Inr ds
                  \<and> length ds = nat (d2 - d1) + 1
                  \<and> (\<forall>i < length ds. ds ! i = d1 + int i)
                  \<and> hd ds = d1 \<and> last ds = d2"
    using date_range_length [of d1 d2] date_range_nth [of _ d1 d2] date_range_hd [of d1 d2]
      date_range_last [OF le]
    by blast
next
  assume "d2 < d1"
  then show "\<exists>e. parse_date_expression iy (t1 @ '' to '' @ t2) = Inl e"
    by (simp only: parse_range_expression [OF assms]) simp
qed

theorem range_expression_expands_witness:
  "parse_date_token 2025 ''10/14/25'' = Some 739538
   \<and> parse_date_token 2025 ''10/16/25'' = Some 739540
   \<and> make_date 2025 10 14 = Some 739538 \<and> make_date 2025 10 15 = Some 739539
   \<and> make_date 2025 10 16 = Some 739540
   \<and> (\<exists>ds. parse_date_expression 2025 ''10/14/25 to 10/16/25'' = Inr ds
          \<and> length ds = 3 \<and> ds ! 0 = 739538 \<and> ds ! 1 = 739539 \<and> ds ! 2 = 739540)
   \<and> (\<exists>e. parse_date_expression 2025 ''10/16/25 to 10/14/25'' = Inl e)"
proof -
  have a: "parse_date_token 2025 ''10/14/25'' = Some 739538" by (simp add: date_eval)
  have b: "parse_date_token 2025 ''10/16/25'' = Some 739540" by (simp add: date_eval)
  have 1: "\<exists>ds. parse_date_expression 2025 (''10/14/25'' @ '' to '' @ ''10/16/25'') = Inr ds
          \<and> length ds = 3 \<and> ds ! 0 = 739538 \<and> ds ! 1 = 739539 \<and> ds ! 2 = 739540"
    using range_expression_expands [OF a b] by force
  have 2: "\<exists>e. parse_date_expression 2025 (''10/16/25'' @ '' to '' @ ''10/14/25'') = Inl e"
    using range_expression_expands [OF b a] by simp
  have 3: "make_date 2025 10 14 = Some 739538 \<and> make_date 2025 10 15 = Some 739539
             \<and> make_date 2025 10 16 = Some 739540"
    by (simp add: date_eval)
  from a b 1 2 3 show ?thesis by simp
qed

section \<open>The API client\<close>

lemma schedule_request_fetch_update [simp]:
  "schedule_request (env\<lparr>fetch := f\<rparr>) team entries dir save
     = schedule_request env team entries dir save"
  by (simp add: schedule_request_def API_BASE_URL_def)

lemma error_message_fetch_update [simp]:
  "error_message (env\<lparr>fetch := f\<rparr>) v = error_message env v"
  by (cases v) simp_all

lemma generateSchedule_fetch_cong:
  "f (schedule_request env team entries dir save)
     = fetch env (schedule_request env team entries dir save) \<Longrightarrow>
   generateSchedule (env\<lparr>fetch := f\<rparr>) team entries dir save
     = generateSchedule env team entries dir save"
  by (simp add: generateSchedule_def Let_def split: option.splits sum.splits)

lemma generateSchedule_ok:
  "fetch env (schedule_request env team entries dir save) = Some response \<Longrightarrow>
   ok response \<Longrightarrow> blob_of response = Some b \<Longrightarrow>
   generateSchedule env team entries dir save
     = Inr \<lparr>blob = b, filename = response_filename response,
            contentType = or_default (headers_get response ''Content-Type'') ''''\<rparr>"
  by (simp add: generateSchedule_def)

text \<open>
  C5. The request of the Generate client operation carries, as its body, the
  serialisation of the object with exactly the four properties \<^verbatim>\<open>team_name\<close>,
  \<^verbatim>\<open>entries_json\<close>, \<^verbatim>\<open>output_dir\<close> and \<^verbatim>\<open>save_to_system\<close>, where
  \<^verbatim>\<open>entries_json\<close> is \<^verbatim>\<open>JSON.stringify\<close> of the entries as they were passed (an
  argument left out takes its default); the operation depends on the network only through the answer to this one request; and
  whenever the answer is a response with \<^verbatim>\<open>ok\<close> whose body can be read, the operation
  returns exactly the blob of the response, a file name and a content type.
\<close>

theorem generateSchedule_sends_entries_verbatim:
  "body (schedule_request env team entries dir save)
     = JSON_stringify env (JObj
         [(''team_name'', JStr team),
          (''entries_json'', JStr (JSON_stringify env (JArr entries))),
          (''output_dir'', JStr (case dir of None \<Rightarrow> '''' | Some d \<Rightarrow> d)),
          (''save_to_system'', JBool (case save of None \<Rightarrow> False | Some s \<Rightarrow> s))])
   \<and> (\<forall>f. f (schedule_request env team entries dir save)
             = fetch env (schedule_request env team entries dir save)
          \<longrightarrow> generateSchedule (env\<lparr>fetch := f\<rparr>) team entries dir save
                = generateSchedule env team entries dir save)
   \<and> (\<forall>response b.
          fetch env (schedule_request env team entries dir save) = Some response
          \<and> ok response \<and> blob_of response = Some b
          \<longrightarrow> generateSchedule env team entries dir save
                = Inr \<lparr>blob = b, filename = response_filename response,
                       contentType = or_default (headers_get response ''Content-Type'') ''''\<rparr>)"
proof (intro conjI allI impI)
  show "body (schedule_request env team entries dir save)
     = JSON_stringify env (JObj
         [(''team_name'', JStr team),
          (''entries_json'', JStr (JSON_stringify env (JArr entries))),
          (''output_dir'', JStr (case dir of None \<Rightarrow> '''' | Some d \<Rightarrow> d)),
          (''save_to_system'', JBool (case save of None \<Rightarrow> False | Some s \<Rightarrow> s))])"
    by (simp add: schedule_request_def)
next
  fix f
  assume "f (schedule_request env team entries dir save)
            = fetch env (schedule_request env team entries dir save)"
  then show "generateSchedule (env\<lparr>fetch := f\<rparr>) team entries dir save
               = generateSchedule env team entries dir save"
    by (rule generateSchedule_fetch_cong)
next
  fix response b
  assume "fetch env (schedule_request env team entries dir save) = Some response
            \<and> ok response \<and> blob_of response = Some b"
  then show "generateSchedule env team entries dir save
               = Inr \<lparr>blob = b, filename = response_filename response,
                      contentType = or_default (headers_get response ''Content-Type'') ''''\<rparr>"
    by (simp add: generateSchedule_ok)
qed

theorem generateSchedule_sends_entries_verbatim_witness:
  "generateSchedule
     \<lparr>VITE_API_URL = None,
      JSON_stringify = (\<lambda>v. case v of JArr xs \<Rightarrow> ''entries'' | _ \<Rightarrow> ''payload''),
      ToString = (\<lambda>v. ''''),
      fetch = (\<lambda>req.
        if url req = ''http://localhost:8000/api/inspections/schedule/''
           \<and> http_method req = ''POST'' \<and> body req = ''payload''
        then Some \<lparr>ok = True,
                   headers_get = (\<lambda>n. if n = ''Content-Type'' then Some ''application/zip''
                                       else None),
                   json = None, blob_of = Some (42 :: nat)\<rparr>
        else None)\<rparr>
     ''TL1'' [JObj [(''bin'', JStr ''1'')]] (Some ''/srv/out'') None
   = Inr \<lparr>blob = 42, filename = ''schedule.xlsx'', contentType = ''application/zip''\<rparr>"
proof -
  let ?r = "\<lparr>ok = True,
             headers_get = (\<lambda>n. if n = ''Content-Type'' then Some ''application/zip''
                                 else None),
             json = None, blob_of = Some (42 :: nat)\<rparr>"
  let ?env = "\<lparr>VITE_API_URL = None,
      JSON_stringify = (\<lambda>v. case v of JArr xs \<Rightarrow> ''entries'' | _ \<Rightarrow> ''payload''),
      ToString = (\<lambda>v. ''''),
      fetch = (\<lambda>req.
        if url req = ''http://localhost:8000/api/inspections/schedule/''
           \<and> http_method req = ''POST'' \<and> body req = ''payload''
        then Some ?r else None)\<rparr>"
  let ?es = "[JObj [(''bin'', JStr ''1'')]]"
  have sent: "fetch ?env (schedule_request ?env ''TL1'' ?es (Some ''/srv/out'') None) = Some ?r"
    by (simp add: schedule_request_def API_BASE_URL_def or_default_def)
  have "\<forall>response b.
          fetch ?env (schedule_request ?env ''TL1'' ?es (Some ''/srv/out'') None) = Some response
          \<and> ok response \<and> blob_of response = Some b
          \<longrightarrow> generateSchedule ?env ''TL1'' ?es (Some ''/srv/out'') None
                = Inr \<lparr>blob = b, filename = response_filename response,
                       contentType = or_default (headers_get response ''Content-Type'') ''''\<rparr>"
    by (rule generateSchedule_sends_entries_verbatim
          [of ?env "''TL1''" ?es "Some ''/srv/out''" None, THEN conjunct2, THEN conjunct2])
  then have "generateSchedule ?env ''TL1'' ?es (Some ''/srv/out'') None
                = Inr \<lparr>blob = 42, filename = response_filename ?r,
                       contentType = or_default (headers_get ?r ''Content-Type'') ''''\<rparr>"
    using sent by simp
  then show ?thesis by (simp add: response_filename_def or_default_def)
qed

text \<open>
  What the operation does on a response that is not \<^verbatim>\<open>ok\<close>: it never returns a
  document; the message is the fixed one when the body is not parseable JSON or is an
  object without a truthy \<^verbatim>\<open>error\<close> property, and the \<^verbatim>\<open>error\<close> string of the body
  when that is a non-empty string; on the body \<^verbatim>\<open>null\<close> the property read throws.
\<close>

lemma generateSchedule_not_ok:
  assumes "fetch env (schedule_request env team entries dir save) = Some response"
    and "\<not> ok response"
  shows "(\<exists>e. generateSchedule env team entries dir save = Inl e)
    \<and> (json response = None \<longrightarrow>
           generateSchedule env team entries dir save
             = Inl (Error ''Failed to generate schedule''))
    \<and> (\<forall>fs msg. json response = Some (JObj fs) \<and> map_of fs ''error'' = Some (JStr msg)
           \<and> msg \<noteq> [] \<longrightarrow>
           generateSchedule env team entries dir save = Inl (Error msg))
    \<and> (\<forall>fs. json response = Some (JObj fs) \<and> \<not> truthy (map_of fs ''error'') \<longrightarrow>
           generateSchedule env team entries dir save
             = Inl (Error ''Failed to generate schedule''))
    \<and> (json response = Some JNull \<longrightarrow>
           generateSchedule env team entries dir save = Inl TypeError)"
  using assms by (auto simp: generateSchedule_def Let_def split: sum.splits option.splits)

text \<open>
  C6. The failing input: a response that is not \<^verbatim>\<open>ok\<close> and whose body is the JSON text
  \<^verbatim>\<open>null\<close>. Whatever the arguments, the operation then throws the engine's
  \<open>TypeError\<close> of the property read \<^verbatim>\<open>error.error\<close>, not an \<open>Error\<close> whose message is
  the server's string or the fixed message.
\<close>

theorem generateSchedule_null_body_TypeError:
  "\<forall>api_url stringify toString team entries dir save.
     generateSchedule
       \<lparr>VITE_API_URL = api_url, JSON_stringify = stringify, ToString = toString,
        fetch = (\<lambda>req. Some \<lparr>ok = False, headers_get = (\<lambda>n. None),
                                json = Some JNull, blob_of = (None :: unit option)\<rparr>)\<rparr>
       team entries dir save
     = Inl TypeError"
  by (simp add: generateSchedule_def)

text \<open>
  The file name of a response: the default without the header or without the literal
  \<^verbatim>\<open>filename="\<close> in it; the quoted name when no double quote stands before the
  literal and none after the quote that closes the name.
\<close>

lemma response_filename_absent:
  "headers_get response ''Content-Disposition'' = None \<Longrightarrow>
     response_filename response = ''schedule.xlsx''"
  by (simp add: response_filename_def or_default_def)

lemma greedy_capture_nonempty: "greedy_capture rest = Some name \<Longrightarrow> name \<noteq> []"
proof -
  assume a: "greedy_capture rest = Some name"
  define line where "line = takeWhile (\<lambda>c. \<not> line_terminator c) rest"
  define closing where "closing = filter (\<lambda>n. line ! n = dquote) [1..<length line]"
  from a have ne: "closing \<noteq> []" and nm: "name = take (last closing) line"
    by (auto simp: greedy_capture_def Let_def line_def closing_def split: if_splits)
  from ne have "last closing \<in> set closing" by simp
  then have "1 \<le> last closing \<and> last closing < length line"
    by (auto simp: closing_def)
  with nm show ?thesis by auto
qed

lemma match_filename_nonempty: "match_filename h = Some name \<Longrightarrow> name \<noteq> []"
  by (induction h) (auto split: if_splits option.splits dest: greedy_capture_nonempty)

lemma match_filename_no_occurrence:
  "\<forall>pre rest. h \<noteq> pre @ filename_eq_quote @ rest \<Longrightarrow> match_filename h = None"
proof (induction h)
  case Nil
  then show ?case by simp
next
  case (Cons c cs)
  have np: "\<not> prefix filename_eq_quote (c # cs)"
  proof
    assume "prefix filename_eq_quote (c # cs)"
    then obtain rest where "c # cs = filename_eq_quote @ rest" by (auto simp: prefix_def)
    then have "c # cs = [] @ filename_eq_quote @ rest" by simp
    with Cons.prems show False by blast
  qed
  have "\<forall>pre rest. cs \<noteq> pre @ filename_eq_quote @ rest"
  proof (intro allI notI)
    fix pre rest assume "cs = pre @ filename_eq_quote @ rest"
    then have "c # cs = (c # pre) @ filename_eq_quote @ rest" by simp
    with Cons.prems show False by blast
  qed
  with Cons.IH np show ?case by simp
qed

lemma greedy_capture_single:
  assumes "name \<noteq> []" and "\<forall>c \<in> set name. \<not> line_terminator c" and "dquote \<notin> set post"
  shows "greedy_capture (name @ [dquote] @ post) = Some name"
proof -
  define tail where "tail = takeWhile (\<lambda>c. \<not> line_terminator c) post"
  define line where "line = name @ [dquote] @ tail"
  have lt: "\<not> line_terminator dquote" by (simp add: line_terminator_def dquote_def)
  have line: "takeWhile (\<lambda>c. \<not> line_terminator c) (name @ [dquote] @ post) = line"
    using assms(2) lt by (simp add: line_def tail_def takeWhile_append2)
  have tail_nq: "dquote \<notin> set tail"
    using assms(3) by (auto simp: tail_def dest: set_takeWhileD)
  let ?n = "length name"
  have n1: "1 \<le> ?n" using assms(1) by (cases name) auto
  have len: "length line = ?n + Suc (length tail)" by (simp add: line_def)
  have split: "[1..<length line] = [1..<?n] @ [?n] @ [Suc ?n..<length line]"
  proof -
    have "[1..<?n + Suc (length tail)] = [1..<?n] @ [?n..<?n + Suc (length tail)]"
      using n1 by (rule upt_add_eq_append)
    also have "[?n..<?n + Suc (length tail)] = ?n # [Suc ?n..<?n + Suc (length tail)]"
      by (rule upt_conv_Cons) simp
    finally show ?thesis by (simp only: len append_Cons append_Nil)
  qed
  have after: "filter (\<lambda>n. line ! n = dquote) [Suc ?n..<length line] = []"
  proof -
    have "\<forall>n \<in> set [Suc ?n..<length line]. line ! n \<noteq> dquote"
    proof
      fix n assume "n \<in> set [Suc ?n..<length line]"
      then have n: "Suc ?n \<le> n" "n < length line" by auto
      then have "line ! n = tail ! (n - Suc ?n)"
        by (auto simp: line_def nth_append nth_Cons')
      moreover have "n - Suc ?n < length tail" using n by (auto simp: line_def)
      ultimately show "line ! n \<noteq> dquote" using tail_nq by (metis nth_mem)
    qed
    then show ?thesis by (simp add: filter_empty_conv)
  qed
  have at: "line ! ?n = dquote" by (simp add: line_def nth_append)
  have closing: "filter (\<lambda>n. line ! n = dquote) [1..<length line]
                   = filter (\<lambda>n. line ! n = dquote) [1..<?n] @ [?n]"
    unfolding split by (simp add: after at)
  have "take ?n line = name" by (simp add: line_def)
  then show ?thesis
    unfolding greedy_capture_def line Let_def closing by simp
qed

lemma prefix_filename_nth:
  "prefix filename_eq_quote xs \<Longrightarrow> xs ! 9 = dquote"
  by (auto simp: prefix_def filename_eq_quote_def)

lemma filename_literal_chars: "k < 9 \<Longrightarrow> (filename_eq_quote @ rest) ! k \<noteq> dquote"
proof -
  assume "k < 9"
  then have "k \<in> {0, 1, 2, 3, 4, 5, 6, 7, 8}" by auto
  then show ?thesis
    by (auto simp: filename_eq_quote_def dquote_def)
qed

lemma match_filename_skip:
  "dquote \<notin> set pre \<Longrightarrow>
     match_filename (pre @ filename_eq_quote @ rest) = match_filename (filename_eq_quote @ rest)"
proof (induction pre)
  case Nil
  then show ?case by simp
next
  case (Cons c pre)
  let ?xs = "(c # pre) @ filename_eq_quote @ rest"
  have "?xs ! 9 \<noteq> dquote"
  proof (cases "9 < length (c # pre)")
    case True
    then have "?xs ! 9 = (c # pre) ! 9" by (simp only: nth_append if_True)
    moreover have "(c # pre) ! 9 \<in> set (c # pre)" using True by (rule nth_mem)
    ultimately show ?thesis using Cons.prems by metis
  next
    case False
    then have "?xs ! 9 = (filename_eq_quote @ rest) ! (9 - length (c # pre))"
      by (simp only: nth_append if_False)
    moreover have "9 - length (c # pre) < 9" by simp
    ultimately show ?thesis using filename_literal_chars by metis
  qed
  then have "\<not> prefix filename_eq_quote ?xs" using prefix_filename_nth by blast
  then have "match_filename ?xs = match_filename (pre @ filename_eq_quote @ rest)"
    by simp
  with Cons show ?case by simp
qed

lemma match_filename_single_quoted:
  assumes "dquote \<notin> set pre" and "name \<noteq> []" and "\<forall>c \<in> set name. \<not> line_terminator c"
    and "dquote \<notin> set post"
  shows "match_filename (pre @ filename_eq_quote @ name @ [dquote] @ post) = Some name"
proof -
  have "match_filename (pre @ filename_eq_quote @ name @ [dquote] @ post)
          = match_filename (filename_eq_quote @ name @ [dquote] @ post)"
    by (rule match_filename_skip [OF assms(1)])
  also have "\<dots> = Some name"
    using greedy_capture_single [OF assms(2,3,4)]
    by (simp add: filename_eq_quote_def)
  finally show ?thesis .
qed

lemma response_filename_single_quoted:
  assumes "headers_get response ''Content-Disposition''
             = Some (pre @ filename_eq_quote @ name @ [dquote] @ post)"
    and "dquote \<notin> set pre" and "name \<noteq> []" and "\<forall>c \<in> set name. \<not> line_terminator c"
    and "dquote \<notin> set post"
  shows "response_filename response = name"
  using assms(1,3) match_filename_single_quoted [OF assms(2,3,4,5)]
  by (simp add: response_filename_def or_default_def)

lemma response_filename_no_quoted:
  assumes "headers_get response ''Content-Disposition'' = Some h"
    and "\<forall>pre rest. h \<noteq> pre @ filename_eq_quote @ rest"
  shows "response_filename response = ''schedule.xlsx''"
  using assms(1) match_filename_no_occurrence [OF assms(2)]
  by (simp add: response_filename_def or_default_def)

text \<open>
  C10. The failing input: a response whose Content-Disposition header carries a second
  quoted parameter after the file name. The group of the regular expression is greedy:
  the file name returned runs to the last double quote of the header, not to the quote
  that closes the file name.
\<close>

theorem response_filename_greedy:
  "response_filename
     \<lparr>ok = True,
      headers_get = (\<lambda>n. if n = ''Content-Disposition''
         then Some (''attachment; filename='' @ [dquote] @ ''a.xlsx'' @ [dquote]
                    @ ''; x='' @ [dquote] @ ''y'' @ [dquote])
         else None),
      json = None, blob_of = Some ()\<rparr>
   = ''a.xlsx'' @ [dquote] @ ''; x='' @ [dquote] @ ''y''"
  by (simp add: response_filename_def or_default_def filename_eq_quote_def greedy_capture_def
        dquote_def line_terminator_def Let_def)

section \<open>Editing a cell\<close>

lemma js_index_assign_same: "js_index (js_assign_index xs i e) i = Some e"
  by (simp add: js_index_def js_assign_index_def nth_append)

lemma js_index_assign_other: "j \<noteq> i \<Longrightarrow> js_index (js_assign_index xs i e) j = js_index xs j"
  by (auto simp: js_index_def js_assign_index_def nth_append)

lemma get_prop_update: "get_prop (AList.update f v e) g = (if g = f then Some v else get_prop e g)"
  by (simp add: get_prop_def update_conv')

lemma handleCellChange_in_range:
  "i < length prev \<Longrightarrow>
     handleCellChange prev i field v = map Some (prev[i := AList.update field v (prev ! i)])"
  by (simp add: handleCellChange_def Let_def js_assign_index_def js_index_def map_update)

text \<open>
  C7. After a cell edit, the row at the edited index is the old row with the named field
  set to the new value: that field reads as the new value and every other field reads as
  before; every other row reads as before; and for an index inside the list the result is
  the list with that one row replaced, of the same length.
\<close>

theorem handleCellChange_frame:
  "js_index (handleCellChange prev i field v) i
     = Some (AList.update field v (spread (js_index (map Some prev) i)))
   \<and> get_prop (AList.update field v (spread (js_index (map Some prev) i))) field = Some v
   \<and> (\<forall>g. g \<noteq> field \<longrightarrow>
         get_prop (AList.update field v (spread (js_index (map Some prev) i))) g
           = get_prop (spread (js_index (map Some prev) i)) g)
   \<and> (\<forall>j. j \<noteq> i \<longrightarrow>
         js_index (handleCellChange prev i field v) j = js_index (map Some prev) j)
   \<and> (i < length prev \<longrightarrow>
         handleCellChange prev i field v
           = map Some (prev[i := AList.update field v (prev ! i)]))"
proof (intro conjI allI impI)
  show "js_index (handleCellChange prev i field v) i
          = Some (AList.update field v (spread (js_index (map Some prev) i)))"
    by (simp add: handleCellChange_def Let_def js_index_assign_same)
  show "get_prop (AList.update field v (spread (js_index (map Some prev) i))) field = Some v"
    by (simp add: get_prop_update)
next
  fix g assume "g \<noteq> field"
  then show "get_prop (AList.update field v (spread (js_index (map Some prev) i))) g
               = get_prop (spread (js_index (map Some prev) i)) g"
    by (simp add: get_prop_update)
next
  fix j assume "j \<noteq> i"
  then show "js_index (handleCellChange prev i field v) j = js_index (map Some prev) j"
    by (simp add: handleCellChange_def Let_def js_index_assign_other)
next
  assume "i < length prev"
  then show "handleCellChange prev i field v
               = map Some (prev[i := AList.update field v (prev ! i)])"
    by (rule handleCellChange_in_range)
qed

theorem handleCellChange_frame_witness:
  "handleCellChange
     [[(''bin'', JStr ''1''), (''town'', JStr ''A'')], [(''bin'', JStr ''2'')]]
     0 ''town'' (JStr ''B'')
   = [Some [(''bin'', JStr ''1''), (''town'', JStr ''B'')], Some [(''bin'', JStr ''2'')]]
   \<and> js_index (handleCellChange
        [[(''bin'', JStr ''1''), (''town'', JStr ''A'')], [(''bin'', JStr ''2'')]]
        0 ''town'' (JStr ''B'')) 1
     = Some [(''bin'', JStr ''2'')]
   \<and> get_prop (AList.update ''town'' (JStr ''B'')
        (spread (js_index (map Some
           [[(''bin'', JStr ''1''), (''town'', JStr ''A'')], [(''bin'', JStr ''2'')]]) 0)))
        ''bin''
     = Some (JStr ''1'')"
  using handleCellChange_frame
    [of "[[(''bin'', JStr ''1''), (''town'', JStr ''A'')], [(''bin'', JStr ''2'')]]"
        0 "''town''" "JStr ''B''"]
  by (simp add: js_index_def get_prop_def)

section \<open>The preview table\<close>

lemma preview_table_nth:
  "i < length entries \<Longrightarrow> k < length PREVIEW_FIELDS \<Longrightarrow>
     preview_table entries ! i ! k = preview_cell (entries ! i) (PREVIEW_FIELDS ! k)"
  by (simp add: preview_table_def preview_row_def)

lemma cell_content_missing:
  "missing_or_empty (get_prop entry field) \<Longrightarrow>
     cell_content entry field = JStr (if field = ''due_date'' then ''-'' else '''')"
  unfolding missing_or_empty_def cell_content_def by (auto split: option.splits)

text \<open>
  C8. In every row of the rendered preview table, a cell whose field is missing or empty
  shows the placeholder dash when the field is \<^verbatim>\<open>due_date\<close> and the empty string
  for every other field.
\<close>

theorem preview_missing_due_date_dash:
  assumes "i < length entries" and "k < length PREVIEW_FIELDS"
    and "missing_or_empty (get_prop (entries ! i) (PREVIEW_FIELDS ! k))"
  shows "content (preview_table entries ! i ! k) =
           (if PREVIEW_FIELDS ! k = ''due_date'' then JStr ''-'' else JStr '''')"
  using assms by (simp add: preview_table_nth preview_cell_def cell_content_missing)

theorem preview_missing_due_date_dash_witness:
  "content (preview_table [[(''bin'', JStr ''1234567''), (''due_date'', JNull),
                            (''town'', JStr '''')]] ! 0 ! 4) = JStr ''-''
   \<and> content (preview_table [[(''bin'', JStr ''1234567''), (''due_date'', JNull),
                              (''town'', JStr '''')]] ! 0 ! 8) = JStr ''''
   \<and> content (preview_table [[(''bin'', JStr ''1234567''), (''due_date'', JNull),
                              (''town'', JStr '''')]] ! 0 ! 1) = JStr ''''"
  using
    preview_missing_due_date_dash
      [of 0 "[[(''bin'', JStr ''1234567''), (''due_date'', JNull), (''town'', JStr '''')]]" 4]
    preview_missing_due_date_dash
      [of 0 "[[(''bin'', JStr ''1234567''), (''due_date'', JNull), (''town'', JStr '''')]]" 8]
    preview_missing_due_date_dash
      [of 0 "[[(''bin'', JStr ''1234567''), (''due_date'', JNull), (''town'', JStr '''')]]" 1]
  by (simp add: PREVIEW_FIELDS_def missing_or_empty_def get_prop_def)

text \<open>
  C9. A cell of the rendered preview table carries the class \<^verbatim>\<open>lc-y\<close> exactly when
  it is the \<^verbatim>\<open>lane_closed\<close> cell and the entry's value there is the string
  \<^verbatim>\<open>Y\<close>; every other cell has the empty class name.
\<close>

theorem preview_lane_closed_marker:
  assumes "i < length entries" and "k < length PREVIEW_FIELDS"
  shows "(className (preview_table entries ! i ! k) = ''lc-y'') =
           (PREVIEW_FIELDS ! k = ''lane_closed''
            \<and> get_prop (entries ! i) ''lane_closed'' = Some (JStr ''Y''))
         \<and> (className (preview_table entries ! i ! k) \<noteq> ''lc-y''
              \<longrightarrow> className (preview_table entries ! i ! k) = '''')"
  using assms by (auto simp: preview_table_nth preview_cell_def cell_className_def)

theorem preview_lane_closed_marker_witness:
  "className (preview_table [[(''bin'', JStr ''Y''), (''lane_closed'', JStr ''Y'')],
                             [(''bin'', JStr ''7''), (''lane_closed'', JStr ''N'')]] ! 0 ! 7)
     = ''lc-y''
   \<and> className (preview_table [[(''bin'', JStr ''Y''), (''lane_closed'', JStr ''Y'')],
                               [(''bin'', JStr ''7''), (''lane_closed'', JStr ''N'')]] ! 0 ! 0)
     = ''''
   \<and> className (preview_table [[(''bin'', JStr ''Y''), (''lane_closed'', JStr ''Y'')],
                               [(''bin'', JStr ''7''), (''lane_closed'', JStr ''N'')]] ! 1 ! 7)
     = ''''"
  using
    preview_lane_closed_marker
      [of 0 "[[(''bin'', JStr ''Y''), (''lane_closed'', JStr ''Y'')],
              [(''bin'', JStr ''7''), (''lane_closed'', JStr ''N'')]]" 7]
    preview_lane_closed_marker
      [of 0 "[[(''bin'', JStr ''Y''), (''lane_closed'', JStr ''Y'')],
              [(''bin'', JStr ''7''), (''lane_closed'', JStr ''N'')]]" 0]
    preview_lane_closed_marker
      [of 1 "[[(''bin'', JStr ''Y''), (''lane_closed'', JStr ''Y'')],
              [(''bin'', JStr ''7''), (''lane_closed'', JStr ''N'')]]" 7]
  by (simp add: PREVIEW_FIELDS_def get_prop_def)

end
